theory Spec2Isabelle
  imports Main
begin

section \<open>Values exchanged with the server\<close>

text \<open>
  Response bodies are JSON documents handled by untyped JavaScript at run time, so
  the model keeps the run-time distinctions the code depends on: \<open>undefined\<close>
  against \<open>null\<close>, arrays against objects, truthy against falsy. A number is
  carried as the text JavaScript prints for it (the code never computes with one, it only
  tests it for truthiness and interpolates it into a string). An object is its list of
  own fields.
\<close>

datatype json =
    JUndefined
  | JNull
  | JBool bool
  | JNum string
  | JStr string
  | JArr "json list"
  | JObj "(string \<times> json) list"

text \<open>
  \<open>TypeError\<close> is what the JavaScript run time throws on a property read from
  \<open>undefined\<close> or \<open>null\<close>, or on a call of something that is not a function;
  \<open>AxiosError\<close> stands for a rejection of the HTTP client (network error or
  non-success status), with its message.
\<close>

datatype error = TypeError | AxiosError string

text \<open>
  Property read \<open>v.name\<close>. Only the names \<open>data\<close>, \<open>included\<close>,
  \<open>type\<close> and \<open>id\<close> are ever read, none of which is a built-in property of a
  string, number, boolean or array: on those the read gives \<open>undefined\<close>.
\<close>

fun read_prop :: "json \<Rightarrow> string \<Rightarrow> error + json" where
  "read_prop JUndefined name = Inl TypeError"
| "read_prop JNull name = Inl TypeError"
| "read_prop (JObj fields) name =
     Inr (case map_of fields name of None \<Rightarrow> JUndefined | Some v \<Rightarrow> v)"
| "read_prop v name = Inr JUndefined"

text \<open>The same read where a failure cannot occur any more (the value is known to be
  neither \<open>undefined\<close> nor \<open>null\<close>).\<close>

definition field :: "json \<Rightarrow> string \<Rightarrow> json" where
  "field v name = (case read_prop v name of Inl e \<Rightarrow> JUndefined | Inr x \<Rightarrow> x)"

text \<open>JavaScript truthiness, as tested by \<open>included || []\<close> and \<open>if (alias)\<close>.\<close>

fun truthy :: "json \<Rightarrow> bool" where
  "truthy JUndefined = False"
| "truthy JNull = False"
| "truthy (JBool b) = b"
| "truthy (JNum s) = (s \<noteq> ''0'' \<and> s \<noteq> ''-0'' \<and> s \<noteq> ''NaN'')"
| "truthy (JStr s) = (s \<noteq> [])"
| "truthy (JArr xs) = True"
| "truthy (JObj fields) = True"

fun join_comma :: "string list \<Rightarrow> string" where
  "join_comma [] = []"
| "join_comma [s] = s"
| "join_comma (s # t # ss) = s @ '','' @ join_comma (t # ss)"

text \<open>String conversion of a value interpolated into a template literal
  \<open>`${v}`\<close>: an array is the comma-joined conversion of its elements, with
  \<open>undefined\<close> and \<open>null\<close> elements left empty.\<close>

fun js_string :: "json \<Rightarrow> string" where
  "js_string JUndefined = ''undefined''"
| "js_string JNull = ''null''"
| "js_string (JBool b) = (if b then ''true'' else ''false'')"
| "js_string (JNum s) = s"
| "js_string (JStr s) = s"
| "js_string (JArr xs) =
     join_comma (map (\<lambda>x. if x = JUndefined \<or> x = JNull then [] else js_string x) xs)"
| "js_string (JObj fields) = ''[object Object]''"

text \<open>The part of an axios response the code reads: the HTTP status and the parsed
  body (\<open>response.data\<close>).\<close>

record response =
  status :: nat
  data :: json

section \<open>Storage commands and HTTP requests\<close>

text \<open>
  \<open>EnvoyStorageCommand\<close>: an object tagged by its \<open>action\<close>. The option
  objects of \<open>set_unique\<close> and \<open>set_unique_num\<close> are spread into the command;
  their types are declared outside the files at hand, so the options travel as the list
  of their fields.
\<close>

datatype command =
    Get string
  | Set string json
  | SetUnique string "(string \<times> json) list"
  | SetUniqueNum string "(string \<times> json) list"
  | Unset string

fun command_key :: "command \<Rightarrow> string" where
  "command_key (Get k) = k"
| "command_key (Set k v) = k"
| "command_key (SetUnique k opts) = k"
| "command_key (SetUniqueNum k opts) = k"
| "command_key (Unset k) = k"

fun action :: "command \<Rightarrow> string" where
  "action (Get k) = ''get''"
| "action (Set k v) = ''set''"
| "action (SetUnique k opts) = ''set_unique''"
| "action (SetUniqueNum k opts) = ''set_unique_num''"
| "action (Unset k) = ''unset''"

text \<open>
  The two kinds of request the modelled code sends: \<open>axios.get(url, {params: {include}})\<close>
  and the storage \<open>POST\<close> whose body is \<open>{commands, install_id?}\<close>.
\<close>

datatype request =
    AxiosGet string "string option"
  | AxiosPost string "command list" "string option"

text \<open>The HTTP transport is given from outside: it answers a request with a response
  or fails.\<close>

type_synonym transport = "request \<Rightarrow> error + response"

section \<open>The data loader\<close>

text \<open>\<open>EnvoyWebDataLoaderKey\<close>: a JSON-API identity with an optional include
  directive. The interceptor builds keys from whatever the response holds, so type and id
  are run-time values.\<close>

record key =
  key_type :: json
  key_id :: json
  key_include :: "string option"

text \<open>\<open>cacheKeyFn: (key) => `${key.type}_${key.id}`\<close> (EnvoyAPI.ts, line 82).\<close>

definition cacheKeyFn :: "key \<Rightarrow> string" where
  "cacheKeyFn k = js_string (key_type k) @ ''_'' @ js_string (key_id k)"

text \<open>\<open>TYPE_ALIASES\<close> (EnvoyAPI.ts, lines 42-44) and its \<open>get\<close>: only a string
  can equal a key of the table.\<close>

definition TYPE_ALIASES :: "(string \<times> string) list" where
  "TYPE_ALIASES = [(''employee-screening-flows'', ''flows'')]"

definition TYPE_ALIASES_get :: "json \<Rightarrow> json" where
  "TYPE_ALIASES_get t =
     (case t of
        JStr s \<Rightarrow> (case map_of TYPE_ALIASES s of None \<Rightarrow> JUndefined | Some a \<Rightarrow> JStr a)
      | _ \<Rightarrow> JUndefined)"

text \<open>
  \<open>DataLoader\<close> is the npm package \<open>dataloader\<close> (imported at EnvoyAPI.ts, line 3),
  a dependency whose code is not part of the repository. The model below follows the
  package's published behaviour:
  \<^item> the cache maps a cache key to a promise; \<open>load\<close> of a cached key returns the
    cached promise and queues nothing; \<open>load\<close> of an absent key queues the key in the
    current batch and caches the new pending promise;
  \<^item> \<open>prime\<close> stores an already fulfilled promise, and "if the key already exists,
    no change is made";
  \<^item> \<open>clear\<close> deletes the entry of a key;
  \<^item> at the end of the tick the batch is dispatched: the batch function is called once
    with the queued keys; when its promise fulfils, every queued promise is fulfilled
    with its value; when it rejects, every key of the batch is cleared and every queued
    promise is rejected with that error.

  A promise is either one created fulfilled (by \<open>prime\<close>) or one deferred to a
  batch, named by a number; the settlement of the deferred ones is part of the state.
\<close>

datatype promise = Resolved json | Deferred nat

datatype settlement = Pending | Fulfilled json | Rejected error

text \<open>One \<open>EnvoyAPI\<close> instance: the loader's cache, its deferred promises, the batch
  being collected (each key with its promise), and the log of the requests handed to the
  transport.\<close>

record envoy_api =
  cacheMap :: "string \<rightharpoonup> promise"
  deferred :: "nat \<Rightarrow> settlement"
  fresh :: nat
  batch :: "(key \<times> nat) list"
  sent :: "request list"

definition new_api :: envoy_api where
  "new_api = \<lparr>cacheMap = Map.empty, deferred = (\<lambda>n. Pending), fresh = 0, batch = [], sent = []\<rparr>"

text \<open>What a caller awaiting the promise observes.\<close>

fun settled :: "envoy_api \<Rightarrow> promise \<Rightarrow> settlement" where
  "settled st (Resolved v) = Fulfilled v"
| "settled st (Deferred n) = deferred st n"

definition load :: "key \<Rightarrow> envoy_api \<Rightarrow> promise \<times> envoy_api" where
  "load k st =
     (case cacheMap st (cacheKeyFn k) of
        Some p \<Rightarrow> (p, st)
      | None \<Rightarrow>
          (Deferred (fresh st),
           st\<lparr>cacheMap := (cacheMap st)(cacheKeyFn k \<mapsto> Deferred (fresh st)),
              fresh := Suc (fresh st),
              batch := batch st @ [(k, fresh st)]\<rparr>))"

definition prime :: "key \<Rightarrow> json \<Rightarrow> envoy_api \<Rightarrow> envoy_api" where
  "prime k v st =
     (if cacheMap st (cacheKeyFn k) = None
      then st\<lparr>cacheMap := (cacheMap st)(cacheKeyFn k \<mapsto> Resolved v)\<rparr>
      else st)"

definition clear :: "key \<Rightarrow> envoy_api \<Rightarrow> envoy_api" where
  "clear k st = st\<lparr>cacheMap := (cacheMap st)(cacheKeyFn k := None)\<rparr>"

section \<open>Response absorption: the response interceptor\<close>

text \<open>
  EnvoyAPI.ts, lines 92-110. The destructuring
  \<open>const { data: { data: modelOrModels, included } } = response\<close> throws when the body
  is \<open>undefined\<close> or \<open>null\<close>. \<open>(included || []).concat(modelOrModels)\<close> is an array
  only when \<open>included\<close> is falsy or an array (on any other truthy value either
  \<open>concat\<close> or the following \<open>forEach\<close> is not a function); \<open>concat\<close> spreads
  an array argument and appends any other value, \<open>undefined\<close> included.
\<close>

definition models_of :: "response \<Rightarrow> error + json list" where
  "models_of r =
     (if data r = JUndefined \<or> data r = JNull then Inl TypeError
      else
        let modelOrModels = field (data r) ''data'';
            included = field (data r) ''included'';
            primary = (case modelOrModels of JArr ms \<Rightarrow> ms | m \<Rightarrow> [m])
        in if \<not> truthy included then Inr primary
           else (case included of JArr inc \<Rightarrow> Inr (inc @ primary) | _ \<Rightarrow> Inl TypeError))"

text \<open>The body of the \<open>forEach\<close>: reading \<open>model.type\<close> throws on
  \<open>undefined\<close> and \<open>null\<close>; otherwise the model is primed under its own type
  and, when the table has an alias for the type, under the alias.\<close>

definition prime_model :: "json \<Rightarrow> envoy_api \<Rightarrow> error + envoy_api" where
  "prime_model model st =
     (if model = JUndefined \<or> model = JNull then Inl TypeError
      else
        let st1 = prime \<lparr>key_type = field model ''type'', key_id = field model ''id'',
                         key_include = None\<rparr> model st;
            alias = TYPE_ALIASES_get (field model ''type'')
        in if truthy alias
           then Inr (prime \<lparr>key_type = alias, key_id = field model ''id'',
                            key_include = None\<rparr> model st1)
           else Inr st1)"

text \<open>\<open>forEach\<close> stops at the first throw; what was primed before stays primed.\<close>

fun prime_models :: "json list \<Rightarrow> envoy_api \<Rightarrow> error option \<times> envoy_api" where
  "prime_models [] st = (None, st)"
| "prime_models (m # ms) st =
     (case prime_model m st of
        Inl e \<Rightarrow> (Some e, st)
      | Inr st1 \<Rightarrow> prime_models ms st1)"

text \<open>The fulfilment handler of the interceptor: it returns the response it was given,
  or throws.\<close>

definition response_interceptor :: "response \<Rightarrow> envoy_api \<Rightarrow> (error + response) \<times> envoy_api" where
  "response_interceptor r st =
     (case models_of r of
        Inl e \<Rightarrow> (Inl e, st)
      | Inr ms \<Rightarrow>
          (case prime_models ms st of
             (Some e, st1) \<Rightarrow> (Inl e, st1)
           | (None, st1) \<Rightarrow> (Inr r, st1)))"

text \<open>Receiving the answer to a request through the interceptors: the rejection
  handler \<open>(error) => Promise.reject(error)\<close> passes a transport error on.\<close>

definition axios_receive :: "transport \<Rightarrow> request \<Rightarrow> envoy_api \<Rightarrow> (error + response) \<times> envoy_api" where
  "axios_receive t req st =
     (case t req of
        Inl e \<Rightarrow> (Inl e, st)
      | Inr r \<Rightarrow> response_interceptor r st)"

text \<open>A complete call \<open>await this.axios(...)\<close>: the request is handed to the
  transport, then the answer is received.\<close>

definition axios :: "transport \<Rightarrow> request \<Rightarrow> envoy_api \<Rightarrow> (error + response) \<times> envoy_api" where
  "axios t req st = axios_receive t req (st\<lparr>sent := sent st @ [req]\<rparr>)"

section \<open>The batch function and the dispatch of a batch\<close>

text \<open>EnvoyAPI.ts, lines 75-80: one \<open>GET api/v3/${type}/${id}\<close> per key of the
  batch, with the include directive as query parameter; the value for the key is
  \<open>data.data\<close> of the answer.\<close>

definition request_of :: "key \<Rightarrow> request" where
  "request_of k =
     AxiosGet (''api/v3/'' @ js_string (key_type k) @ ''/'' @ js_string (key_id k)) (key_include k)"

definition fetch_receive :: "transport \<Rightarrow> key \<Rightarrow> envoy_api \<Rightarrow> (error + json) \<times> envoy_api" where
  "fetch_receive t k st =
     (case axios_receive t (request_of k) st of
        (Inl e, st1) \<Rightarrow> (Inl e, st1)
      | (Inr r, st1) \<Rightarrow> (read_prop (data r) ''data'', st1))"

text \<open>Settling a batch: on success every queued promise gets its value; on failure
  (\<open>Promise.all\<close> rejects with the first rejection) every key is cleared and every
  queued promise rejected with that one error.\<close>

definition resolve_all :: "(nat \<times> json) list \<Rightarrow> envoy_api \<Rightarrow> envoy_api" where
  "resolve_all vals st =
     st\<lparr>deferred := fold (\<lambda>(n, v) d. d(n := Fulfilled v)) vals (deferred st)\<rparr>"

definition failedDispatch :: "(key \<times> nat) list \<Rightarrow> error \<Rightarrow> envoy_api \<Rightarrow> envoy_api" where
  "failedDispatch b e st =
     (fold (\<lambda>(k, n) s. clear k s) b st)
       \<lparr>deferred := fold (\<lambda>(k, n) d. d(n := Rejected e)) b (deferred st)\<rparr>"

text \<open>
  The requests of a dispatched batch \<open>b\<close> are issued together and answered in any
  order; \<open>receive\<close> takes the batch entries in the order in which their answers
  arrive. Each successful answer passes the interceptor when it arrives. The first
  failure to arrive rejects the batch at once, so the answers that arrive after it are
  absorbed into a cache from which the batch's keys are already cleared.
\<close>

fun receive :: "transport \<Rightarrow> (key \<times> nat) list \<Rightarrow> (key \<times> nat) list \<Rightarrow> bool \<Rightarrow>
    (nat \<times> json) list \<Rightarrow> envoy_api \<Rightarrow> envoy_api" where
  "receive t b [] failed vals st = (if failed then st else resolve_all vals st)"
| "receive t b ((k, n) # rest) failed vals st =
     (case fetch_receive t k st of
        (Inr v, st1) \<Rightarrow> receive t b rest failed (vals @ [(n, v)]) st1
      | (Inl e, st1) \<Rightarrow>
          receive t b rest True vals (if failed then st1 else failedDispatch b e st1))"

text \<open>
  The order of arrival is given from outside, like the transport: \<open>arrival k\<close> is
  the time at which the answer to the fetch of key \<open>k\<close> arrives. The requests are
  handed to the transport in the order of the batch; the answers are received by
  increasing arrival time (answers with the same time in the order of their requests).
\<close>

definition dispatch :: "transport \<Rightarrow> (key \<Rightarrow> nat) \<Rightarrow> envoy_api \<Rightarrow> envoy_api" where
  "dispatch t arrival st =
     receive t (batch st) (sort_key (\<lambda>(k, n). arrival k) (batch st)) False []
       (st\<lparr>batch := [], sent := sent st @ map (\<lambda>(k, n). request_of k) (batch st)\<rparr>)"

text \<open>Several \<open>load\<close> calls issued one after the other within a tick.\<close>

fun loads :: "key list \<Rightarrow> envoy_api \<Rightarrow> promise list \<times> envoy_api" where
  "loads [] st = ([], st)"
| "loads (k # ks) st =
     (case load k st of (p, st1) \<Rightarrow> (case loads ks st1 of (ps, st2) \<Rightarrow> (p # ps, st2)))"

section \<open>The storage pipeline\<close>

text \<open>\<open>EnvoyAPI.storagePipeline\<close> (EnvoyAPI.ts, lines 257-271): \<open>install_id\<close> is
  added to the body only when \<open>installId\<close> is truthy, that is a non-empty string.\<close>

definition storage_url :: string where
  "storage_url = ''/api/v2/plugin-services/storage''"

definition storage_request :: "command list \<Rightarrow> string option \<Rightarrow> request" where
  "storage_request cmds installId =
     AxiosPost storage_url cmds
       (case installId of None \<Rightarrow> None | Some s \<Rightarrow> if s = [] then None else Some s)"

definition storagePipeline ::
    "transport \<Rightarrow> command list \<Rightarrow> string option \<Rightarrow> envoy_api \<Rightarrow> (error + json) \<times> envoy_api" where
  "storagePipeline t cmds installId st =
     (case axios t (storage_request cmds installId) st of
        (Inl e, st1) \<Rightarrow> (Inl e, st1)
      | (Inr r, st1) \<Rightarrow> (read_prop (data r) ''data'', st1))"

text \<open>\<open>EnvoyPluginStoragePipeline\<close>: the API object is the state the calls run in.\<close>

record pipeline =
  installId :: "string option"
  commands :: "command list"

definition new_pipeline :: "string option \<Rightarrow> pipeline" where
  "new_pipeline i = \<lparr>installId = i, commands = []\<rparr>"

definition addCommand :: "command \<Rightarrow> pipeline \<Rightarrow> pipeline" where
  "addCommand c p = p\<lparr>commands := commands p @ [c]\<rparr>"

definition get :: "string \<Rightarrow> pipeline \<Rightarrow> pipeline" where
  "get k p = addCommand (Get k) p"

definition set_value :: "string \<Rightarrow> json \<Rightarrow> pipeline \<Rightarrow> pipeline" where
  "set_value k v p = addCommand (Set k v) p"

definition setUnique :: "string \<Rightarrow> (string \<times> json) list \<Rightarrow> pipeline \<Rightarrow> pipeline" where
  "setUnique k opts p = addCommand (SetUnique k opts) p"

definition setUniqueNum :: "string \<Rightarrow> (string \<times> json) list \<Rightarrow> pipeline \<Rightarrow> pipeline" where
  "setUniqueNum k opts p = addCommand (SetUniqueNum k opts) p"

definition unset :: "string \<Rightarrow> pipeline \<Rightarrow> pipeline" where
  "unset k p = addCommand (Unset k) p"

definition execute :: "transport \<Rightarrow> pipeline \<Rightarrow> envoy_api \<Rightarrow> (error + json) \<times> envoy_api" where
  "execute t p st = storagePipeline t (commands p) (installId p) st"

text \<open>\<open>const [result] = await this.execute()\<close>: the first element of an array,
  \<open>undefined\<close> when there is none; a string is iterable too and yields its first
  character; any other value is not iterable.\<close>

definition first_of :: "json \<Rightarrow> error + json" where
  "first_of v =
     (case v of
        JArr [] \<Rightarrow> Inr JUndefined
      | JArr (x # xs) \<Rightarrow> Inr x
      | JStr [] \<Rightarrow> Inr JUndefined
      | JStr (c # cs) \<Rightarrow> Inr (JStr [c])
      | _ \<Rightarrow> Inl TypeError)"

definition executeSingle :: "transport \<Rightarrow> pipeline \<Rightarrow> envoy_api \<Rightarrow> (error + json) \<times> envoy_api" where
  "executeSingle t p st =
     (case execute t p st of
        (Inl e, st1) \<Rightarrow> (Inl e, st1)
      | (Inr v, st1) \<Rightarrow> (first_of v, st1))"

text \<open>A builder call, and the command it appends.\<close>

datatype call =
    CallAddCommand command
  | CallGet string
  | CallSet string json
  | CallSetUnique string "(string \<times> json) list"
  | CallSetUniqueNum string "(string \<times> json) list"
  | CallUnset string

fun command_of :: "call \<Rightarrow> command" where
  "command_of (CallAddCommand c) = c"
| "command_of (CallGet k) = Get k"
| "command_of (CallSet k v) = Set k v"
| "command_of (CallSetUnique k opts) = SetUnique k opts"
| "command_of (CallSetUniqueNum k opts) = SetUniqueNum k opts"
| "command_of (CallUnset k) = Unset k"

fun apply_call :: "call \<Rightarrow> pipeline \<Rightarrow> pipeline" where
  "apply_call (CallAddCommand c) p = addCommand c p"
| "apply_call (CallGet k) p = get k p"
| "apply_call (CallSet k v) p = set_value k v p"
| "apply_call (CallSetUnique k opts) p = setUnique k opts p"
| "apply_call (CallSetUniqueNum k opts) p = setUniqueNum k opts p"
| "apply_call (CallUnset k) p = unset k p"

fun build :: "call list \<Rightarrow> pipeline \<Rightarrow> pipeline" where
  "build [] p = p"
| "build (c # cs) p = build cs (apply_call c p)"

section \<open>Characterisations used in the statements\<close>

text \<open>
  A response passes the interceptor exactly when its list of models can be formed and
  holds neither \<open>undefined\<close> nor \<open>null\<close> (lemma \<open>interceptor_fst\<close> below).
\<close>

definition absorbable :: "response \<Rightarrow> bool" where
  "absorbable r =
     (case models_of r of Inl e \<Rightarrow> False | Inr ms \<Rightarrow> JUndefined \<notin> set ms \<and> JNull \<notin> set ms)"

text \<open>The outcome of the batch function for one key; it does not depend on the state
  of the loader (lemma \<open>fetch_receive_fst\<close> below).\<close>

definition fetched :: "transport \<Rightarrow> key \<Rightarrow> error + json" where
  "fetched t k =
     (case t (request_of k) of
        Inl e \<Rightarrow> Inl e
      | Inr r \<Rightarrow> if absorbable r then Inr (field (data r) ''data'') else Inl TypeError)"

text \<open>The cache keys under which the interceptor primes a model, and all those of a
  response.\<close>

definition model_keys :: "json \<Rightarrow> string list" where
  "model_keys m =
     cacheKeyFn \<lparr>key_type = field m ''type'', key_id = field m ''id'', key_include = None\<rparr> #
     (if truthy (TYPE_ALIASES_get (field m ''type''))
      then [cacheKeyFn \<lparr>key_type = TYPE_ALIASES_get (field m ''type''), key_id = field m ''id'',
                        key_include = None\<rparr>]
      else [])"


section \<open>Concrete transports and keys for the examples\<close>

text \<open>A transport without connection, one that fails every request with an error naming
  the requested URL, and two storage servers: one that reports a miss for a single
  command, one that returns an empty result list.\<close>

definition offline :: transport where
  "offline req = Inl (AxiosError ''ECONNREFUSED'')"

definition failing :: transport where
  "failing req =
     (case req of
        AxiosGet url inc \<Rightarrow> Inl (AxiosError url)
      | AxiosPost url cmds i \<Rightarrow> Inl (AxiosError url))"

definition storage_miss :: transport where
  "storage_miss req = Inr \<lparr>status = 200, data = JObj [(''data'', JArr [JNull])]\<rparr>"

definition storage_empty :: transport where
  "storage_empty req = Inr \<lparr>status = 200, data = JObj [(''data'', JArr [])]\<rparr>"

text \<open>A storage server that answers every command with an item for its key.\<close>

definition storage_echo :: transport where
  "storage_echo req =
     (case req of
        AxiosGet url inc \<Rightarrow> Inl (AxiosError url)
      | AxiosPost url cmds i \<Rightarrow>
          Inr \<lparr>status = 200,
               data = JObj [(''data'',
                 JArr (map (\<lambda>c. JObj [(''key'', JStr (command_key c)), (''value'', JNum ''1'')]) cmds))]\<rparr>)"

text \<open>Two JSON-API answers: flow 42 under its own type, and employee 7 with flow 42
  included under the name of the relationship.\<close>

definition flows_42 :: response where
  "flows_42 = \<lparr>status = 200,
     data = JObj [(''data'', JObj [(''type'', JStr ''flows''), (''id'', JStr ''42'')])]\<rparr>"

definition screening_42 :: response where
  "screening_42 = \<lparr>status = 200,
     data = JObj [(''data'', JObj [(''type'', JStr ''employees''), (''id'', JStr ''7'')]),
                  (''included'', JArr [JObj [(''type'', JStr ''employee-screening-flows''), (''id'', JStr ''42'')]])]\<rparr>"



text \<open>Two orders of arrival: the answers arrive in the order of the requests; the
  answers to requests for flows arrive before all others.\<close>

definition in_order :: "key \<Rightarrow> nat" where
  "in_order k = 0"


text \<open>The key of \<open>getFlow(''42'', include)\<close>.\<close>

definition flow_k :: "string option \<Rightarrow> key" where
  "flow_k inc = \<lparr>key_type = JStr ''flows'', key_id = JStr ''42'', key_include = inc\<rparr>"

text \<open>The key of \<open>getEmployee(''7'', ''employee-screening-flows'')\<close>, a transport
  that answers every request with flow 42, and one that cannot reach flow 42, answers
  the request for location 1 with that location, and every other request with employee 7
  and the included flow.\<close>

definition employee_k :: key where
  "employee_k = \<lparr>key_type = JStr ''employees'', key_id = JStr ''7'', key_include = Some ''employee-screening-flows''\<rparr>"

definition serving :: transport where
  "serving req = Inr flows_42"




text \<open>The shape of the loader between dispatches, used in the proofs about
  \<open>loads\<close>: every queued key has its cache entry, and no two queued keys share a
  cache key.\<close>

definition queued_ok :: "envoy_api \<Rightarrow> bool" where
  "queued_ok st \<longleftrightarrow>
     (\<forall>(k, n) \<in> set (batch st). cacheMap st (cacheKeyFn k) \<noteq> None) \<and>
     distinct (map (\<lambda>(k, n). cacheKeyFn k) (batch st))"

section \<open>Auxiliary facts\<close>

subsection \<open>Priming\<close>

lemma prime_fields [simp]:
  "sent (prime k v st) = sent st" "batch (prime k v st) = batch st"
  "deferred (prime k v st) = deferred st" "fresh (prime k v st) = fresh st"
  by (simp_all add: prime_def)

lemma cacheMap_prime:
  "cacheMap (prime k v st) x =
     (if x = cacheKeyFn k \<and> cacheMap st x = None then Some (Resolved v) else cacheMap st x)"
  by (auto simp: prime_def)

lemma prime_keeps: "cacheMap st x = Some p \<Longrightarrow> cacheMap (prime k v st) x = Some p"
  by (simp add: cacheMap_prime)

subsection \<open>Priming one model\<close>

lemma prime_model_Inl: "prime_model m st = Inl e \<longleftrightarrow> (m = JUndefined \<or> m = JNull) \<and> e = TypeError"
  by (auto simp: prime_model_def Let_def)

lemma prime_model_fields:
  assumes "prime_model m st = Inr st1"
  shows "sent st1 = sent st" "batch st1 = batch st" "deferred st1 = deferred st" "fresh st1 = fresh st"
  using assms by (auto simp: prime_model_def Let_def split: if_splits)

lemma prime_model_keeps:
  assumes "prime_model m st = Inr st1" "cacheMap st x = Some p"
  shows "cacheMap st1 x = Some p"
  using assms by (auto simp: prime_model_def Let_def prime_keeps split: if_splits)

lemma prime_model_present:
  assumes "prime_model m st = Inr st1" "x \<in> set (model_keys m)"
  shows "cacheMap st1 x \<noteq> None"
  using assms by (auto simp: prime_model_def model_keys_def Let_def cacheMap_prime split: if_splits)


subsection \<open>Priming a list of models\<close>

lemma prime_models_fields:
  "sent (snd (prime_models ms st)) = sent st \<and> batch (snd (prime_models ms st)) = batch st \<and>
   deferred (snd (prime_models ms st)) = deferred st \<and> fresh (snd (prime_models ms st)) = fresh st"
  by (induction ms arbitrary: st) (auto split: sum.splits dest: prime_model_fields)

lemma prime_models_keeps:
  "cacheMap st x = Some p \<Longrightarrow> cacheMap (snd (prime_models ms st)) x = Some p"
  by (induction ms arbitrary: st) (auto split: sum.splits dest: prime_model_keeps)


lemma prime_models_fst:
  "fst (prime_models ms st) = (if JUndefined \<in> set ms \<or> JNull \<in> set ms then Some TypeError else None)"
proof (induction ms arbitrary: st)
  case Nil
  then show ?case by simp
next
  case (Cons a ms)
  show ?case
  proof (cases "a = JUndefined \<or> a = JNull")
    case True
    then have "prime_model a st = Inl TypeError" by (simp add: prime_model_Inl)
    with True show ?thesis by auto
  next
    case False
    then obtain st1 where "prime_model a st = Inr st1"
      by (cases "prime_model a st") (auto simp: prime_model_Inl)
    with False Cons.IH[of st1] show ?thesis by auto
  qed
qed

lemma prime_models_present:
  "fst (prime_models ms st) = None \<Longrightarrow> m \<in> set ms \<Longrightarrow> x \<in> set (model_keys m) \<Longrightarrow>
   cacheMap (snd (prime_models ms st)) x \<noteq> None"
proof (induction ms arbitrary: st)
  case Nil
  then show ?case by simp
next
  case (Cons a ms)
  from Cons.prems(1) obtain st1 where a: "prime_model a st = Inr st1"
    by (cases "prime_model a st") auto
  show ?case
  proof (cases "m = a")
    case True
    with a Cons.prems(3) have "cacheMap st1 x \<noteq> None" by (auto dest: prime_model_present)
    then obtain p where "cacheMap st1 x = Some p" by auto
    then have "cacheMap (snd (prime_models ms st1)) x = Some p" by (rule prime_models_keeps)
    with a show ?thesis by simp
  next
    case False
    with Cons.prems have "m \<in> set ms" by simp
    moreover from Cons.prems(1) a have "fst (prime_models ms st1) = None" by simp
    ultimately have "cacheMap (snd (prime_models ms st1)) x \<noteq> None"
      using Cons.IH Cons.prems(3) by blast
    with a show ?thesis by simp
  qed
qed

subsection \<open>The interceptor\<close>

lemma interceptor_fst:
  "fst (response_interceptor r st) = (if absorbable r then Inr r else Inl TypeError)"
proof (cases "models_of r")
  case (Inl e)
  then have "e = TypeError"
    by (auto simp: models_of_def Let_def split: if_splits json.splits)
  with Inl show ?thesis by (simp add: response_interceptor_def absorbable_def)
next
  case (Inr ms)
  have "fst (prime_models ms st) = (if JUndefined \<in> set ms \<or> JNull \<in> set ms then Some TypeError else None)"
    by (rule prime_models_fst)
  with Inr show ?thesis
    by (cases "prime_models ms st") (auto simp: response_interceptor_def absorbable_def)
qed

subsection \<open>Loading\<close>

lemma load_hit: "cacheMap st (cacheKeyFn k) = Some p \<Longrightarrow> load k st = (p, st)"
  by (simp add: load_def)

lemma load_miss: "cacheMap st (cacheKeyFn k) = None \<Longrightarrow>
  load k st = (Deferred (fresh st),
           st\<lparr>cacheMap := (cacheMap st)(cacheKeyFn k \<mapsto> Deferred (fresh st)),
              fresh := Suc (fresh st),
              batch := batch st @ [(k, fresh st)]\<rparr>)"
  by (simp add: load_def)

lemma cacheMap_load: "cacheMap (snd (load k st)) (cacheKeyFn k) = Some (fst (load k st))"
  by (simp add: load_def split: option.splits)

lemma cacheKeyFn_cong:
  "key_type k2 = key_type k1 \<Longrightarrow> key_id k2 = key_id k1 \<Longrightarrow> cacheKeyFn k2 = cacheKeyFn k1"
  by (simp add: cacheKeyFn_def)

subsection \<open>Evaluation of the definitions at concrete inputs\<close>

lemmas run_defs = new_api_def load_def prime_def clear_def cacheKeyFn_def request_of_def
  dispatch_def fetch_receive_def axios_receive_def axios_def response_interceptor_def
  models_of_def prime_model_def field_def TYPE_ALIASES_get_def TYPE_ALIASES_def
  failedDispatch_def resolve_all_def storagePipeline_def storage_request_def execute_def
  executeSingle_def first_of_def new_pipeline_def addCommand_def in_order_def Let_def

subsection \<open>The interceptor and the state\<close>

lemma interceptor_snd:
  "models_of r = Inr ms \<Longrightarrow> snd (response_interceptor r st) = snd (prime_models ms st)"
  by (cases "prime_models ms st") (auto simp: response_interceptor_def split: option.splits)

lemma interceptor_snd_Inl:
  "models_of r = Inl e \<Longrightarrow> snd (response_interceptor r st) = st"
  by (simp add: response_interceptor_def)

lemma interceptor_fields:
  "sent (snd (response_interceptor r st)) = sent st \<and> batch (snd (response_interceptor r st)) = batch st \<and>
   deferred (snd (response_interceptor r st)) = deferred st \<and> fresh (snd (response_interceptor r st)) = fresh st"
  by (cases "models_of r") (simp_all add: interceptor_snd interceptor_snd_Inl prime_models_fields)



lemma interceptor_present:
  assumes "absorbable r" and "models_of r = Inr ms" and "m \<in> set ms" and "x \<in> set (model_keys m)"
  shows "cacheMap (snd (response_interceptor r st)) x \<noteq> None"
proof -
  from assms(1,2) have "fst (prime_models ms st) = None"
    by (simp add: absorbable_def prime_models_fst)
  then have "cacheMap (snd (prime_models ms st)) x \<noteq> None"
    using assms(3,4) by (rule prime_models_present)
  with assms(2) show ?thesis by (simp add: interceptor_snd)
qed

lemma load_present:
  "cacheMap st (cacheKeyFn k) \<noteq> None \<Longrightarrow> load k st = (the (cacheMap st (cacheKeyFn k)), st)"
  by (auto simp: load_def)

lemma absorbable_empty:
  assumes "field (data r) ''data'' = JArr []" and "\<not> truthy (field (data r) ''included'')"
  shows "absorbable r"
proof -
  from assms(1) have "data r \<noteq> JUndefined" "data r \<noteq> JNull"
    by (auto simp: field_def)
  with assms show ?thesis by (simp add: absorbable_def models_of_def)
qed

lemma read_prop_field: "v \<noteq> JUndefined \<Longrightarrow> v \<noteq> JNull \<Longrightarrow> read_prop v name = Inr (field v name)"
  by (cases v) (simp_all add: field_def)

lemma absorbable_body: "absorbable r \<Longrightarrow> data r \<noteq> JUndefined \<and> data r \<noteq> JNull"
  by (auto simp: absorbable_def models_of_def split: if_splits)

lemma axios_fst:
  "fst (axios t req st) = (case t req of Inl e \<Rightarrow> Inl e | Inr r \<Rightarrow> if absorbable r then Inr r else Inl TypeError)"
  by (simp add: axios_def axios_receive_def interceptor_fst split: sum.splits)

lemma storagePipeline_fst:
  "fst (storagePipeline t cmds i st) =
     (case t (storage_request cmds i) of
        Inl e \<Rightarrow> Inl e
      | Inr r \<Rightarrow> if absorbable r then Inr (field (data r) ''data'') else Inl TypeError)"
proof (cases "axios t (storage_request cmds i) st")
  case (Pair res st1)
  then have "fst (axios t (storage_request cmds i) st) = res" by simp
  then have res: "res = (case t (storage_request cmds i) of Inl e \<Rightarrow> Inl e
      | Inr r \<Rightarrow> if absorbable r then Inr r else Inl TypeError)"
    by (simp add: axios_fst)
  show ?thesis
    using Pair res
    by (auto simp: storagePipeline_def read_prop_field absorbable_body split: sum.splits if_splits)
qed

subsection \<open>The pipeline\<close>

lemma apply_call_commands:
  "commands (apply_call c p) = commands p @ [command_of c] \<and> installId (apply_call c p) = installId p"
  by (cases c) (simp_all add: addCommand_def get_def set_value_def setUnique_def setUniqueNum_def unset_def)

lemma build_commands:
  "commands (build cs p) = commands p @ map command_of cs \<and> installId (build cs p) = installId p"
  by (induction cs arbitrary: p) (simp_all add: apply_call_commands)

lemma sent_axios: "sent (snd (axios t req st)) = sent st @ [req]"
  by (simp add: axios_def axios_receive_def interceptor_fields split: sum.splits)

lemma sent_storagePipeline:
  "sent (snd (storagePipeline t cmds i st)) = sent st @ [storage_request cmds i]"
proof (cases "axios t (storage_request cmds i) st")
  case (Pair res st1)
  then have "st1 = snd (axios t (storage_request cmds i) st)" by simp
  then have "sent st1 = sent st @ [storage_request cmds i]" by (simp add: sent_axios)
  with Pair show ?thesis by (simp add: storagePipeline_def split: sum.splits)
qed

subsection \<open>Receiving one answer\<close>

lemma fetched_absorbable:
  "fetched t k = Inr v \<Longrightarrow> t (request_of k) = Inr r \<Longrightarrow> absorbable r"
  by (auto simp: fetched_def split: if_splits)

lemma fetch_receive_fst: "fst (fetch_receive t k st) = fetched t k"
proof (cases "t (request_of k)")
  case (Inl e)
  then show ?thesis by (simp add: fetch_receive_def axios_receive_def fetched_def)
next
  case (Inr r)
  obtain res st1 where p: "response_interceptor r st = (res, st1)"
    by (cases "response_interceptor r st")
  then have "res = (if absorbable r then Inr r else Inl TypeError)"
    using interceptor_fst[of r st] by simp
  with Inr p show ?thesis
    by (auto simp: fetch_receive_def axios_receive_def fetched_def read_prop_field absorbable_body)
qed

lemma fetch_receive_snd:
  "snd (fetch_receive t k st) =
     (case t (request_of k) of Inl e \<Rightarrow> st | Inr r \<Rightarrow> snd (response_interceptor r st))"
proof (cases "t (request_of k)")
  case (Inl e)
  then show ?thesis by (simp add: fetch_receive_def axios_receive_def)
next
  case (Inr r)
  then show ?thesis
    by (cases "response_interceptor r st")
       (auto simp: fetch_receive_def axios_receive_def split: sum.splits)
qed

lemma fetch_receive_fields:
  "sent (snd (fetch_receive t k st)) = sent st \<and> batch (snd (fetch_receive t k st)) = batch st \<and>
   deferred (snd (fetch_receive t k st)) = deferred st \<and> fresh (snd (fetch_receive t k st)) = fresh st"
  by (simp add: fetch_receive_snd interceptor_fields split: sum.splits)



subsection \<open>Rejecting a batch\<close>

lemma fold_clear_fields:
  "sent (fold (\<lambda>(k, n) s. clear k s) b st) = sent st \<and>
   batch (fold (\<lambda>(k, n) s. clear k s) b st) = batch st \<and>
   fresh (fold (\<lambda>(k, n) s. clear k s) b st) = fresh st"
  by (induction b arbitrary: st) (auto simp: clear_def)



lemma failedDispatch_fields:
  "sent (failedDispatch b e st) = sent st \<and> batch (failedDispatch b e st) = batch st \<and>
   fresh (failedDispatch b e st) = fresh st"
  by (simp add: failedDispatch_def fold_clear_fields)



subsection \<open>Receiving the answers of a batch\<close>

lemma receive_fields:
  "sent (receive t b rest failed vals st) = sent st \<and>
   batch (receive t b rest failed vals st) = batch st \<and>
   fresh (receive t b rest failed vals st) = fresh st"
proof (induction rest arbitrary: failed vals st)
  case Nil
  then show ?case by (simp add: resolve_all_def)
next
  case (Cons a rest)
  obtain k n where a: "a = (k, n)" by (cases a)
  obtain res st1 where f: "fetch_receive t k st = (res, st1)" by (cases "fetch_receive t k st")
  then have "st1 = snd (fetch_receive t k st)" by simp
  then have s: "sent st1 = sent st" "batch st1 = batch st" "fresh st1 = fresh st"
    by (simp_all add: fetch_receive_fields)
  show ?case
  proof (cases res)
    case (Inl e)
    with a f s Cons.IH show ?thesis by (simp add: failedDispatch_fields)
  next
    case (Inr v)
    with a f s Cons.IH show ?thesis by simp
  qed
qed





subsection \<open>Dispatching\<close>

lemma dispatch_fields:
  "sent (dispatch t arrival st) = sent st @ map (\<lambda>(k, n). request_of k) (batch st) \<and>
   batch (dispatch t arrival st) = [] \<and> fresh (dispatch t arrival st) = fresh st"
  by (simp add: dispatch_def receive_fields)

subsection \<open>Several loads\<close>

lemma loads_hit:
  "cacheMap st (cacheKeyFn k) = Some p \<Longrightarrow> loads (replicate N k) st = (replicate N p, st)"
  by (induction N) (simp_all add: load_hit)

lemma loads_same_key:
  assumes "cacheMap st (cacheKeyFn k) = None"
  shows "loads (replicate (Suc N) k) st = (replicate (Suc N) (Deferred (fresh st)), snd (load k st))"
proof -
  have "cacheMap (snd (load k st)) (cacheKeyFn k) = Some (Deferred (fresh st))"
    using assms by (simp add: load_miss)
  then have "loads (replicate N k) (snd (load k st)) = (replicate N (Deferred (fresh st)), snd (load k st))"
    by (rule loads_hit)
  moreover have "fst (load k st) = Deferred (fresh st)" using assms by (simp add: load_miss)
  ultimately show ?thesis by (cases "load k st") simp
qed

lemma loads_snd: "snd (loads (k # ks) st) = snd (loads ks (snd (load k st)))"
  by (simp split: prod.splits)

lemma sent_load: "sent (snd (load k st)) = sent st"
  by (simp add: load_def split: option.splits)

lemma sent_loads: "sent (snd (loads ks st)) = sent st"
proof (induction ks arbitrary: st)
  case Nil
  then show ?case by simp
next
  case (Cons k ks)
  have "sent (snd (loads (k # ks) st)) = sent (snd (loads ks (snd (load k st))))"
    by (simp only: loads_snd)
  also have "\<dots> = sent (snd (load k st))" by (rule Cons.IH)
  also have "\<dots> = sent st" by (rule sent_load)
  finally show ?case .
qed

lemma load_queued:
  assumes "queued_ok st"
  shows "queued_ok (snd (load k st)) \<and>
         (\<exists>new. batch (snd (load k st)) = batch st @ new \<and> fst ` set new \<subseteq> {k})"
proof (cases "cacheMap st (cacheKeyFn k)")
  case (Some p)
  with assms show ?thesis by (simp add: load_hit)
next
  case None
  have "cacheKeyFn k \<notin> (\<lambda>(k, n). cacheKeyFn k) ` set (batch st)"
    using assms None by (auto simp: queued_ok_def)
  with assms None show ?thesis
    by (auto simp: load_miss queued_ok_def)
qed

lemma loads_queued:
  assumes "queued_ok st"
  shows "queued_ok (snd (loads ks st)) \<and>
         (\<exists>new. batch (snd (loads ks st)) = batch st @ new \<and> fst ` set new \<subseteq> set ks)"
  using assms
proof (induction ks arbitrary: st)
  case Nil
  then show ?case by simp
next
  case (Cons k ks)
  obtain p st1 where l: "load k st = (p, st1)" by (cases "load k st")
  with load_queued[OF Cons.prems, of k] obtain new1 where
    1: "queued_ok st1" "batch st1 = batch st @ new1" "fst ` set new1 \<subseteq> {k}" by auto
  from Cons.IH[OF 1(1)] obtain new2 where
    2: "queued_ok (snd (loads ks st1))" "batch (snd (loads ks st1)) = batch st1 @ new2"
       "fst ` set new2 \<subseteq> set ks" by auto
  have "snd (loads (k # ks) st) = snd (loads ks st1)"
    using l by (cases "loads ks st1") simp
  moreover have "fst ` set (new1 @ new2) \<subseteq> set (k # ks)" using 1(3) 2(3) by auto
  ultimately show ?case using 1(2) 2(1,2) by (metis append.assoc)
qed

lemma queued_distinct_keys:
  assumes "queued_ok st"
  shows "distinct (map fst (batch st))"
proof -
  have "map (\<lambda>(k, n). cacheKeyFn k) (batch st) = map cacheKeyFn (map fst (batch st))"
    by (simp add: case_prod_unfold comp_def)
  with assms have "distinct (map cacheKeyFn (map fst (batch st)))" by (simp add: queued_ok_def)
  then show ?thesis unfolding distinct_map[of cacheKeyFn] by simp
qed

lemma dispatch_one_success:
  assumes "batch st = [(k, n)]" and "fetched t k = Inr v"
  shows "deferred (dispatch t arrival st) n = Fulfilled v"
proof -
  let ?st0 = "st\<lparr>batch := [], sent := sent st @ map (\<lambda>(k, n). request_of k) (batch st)\<rparr>"
  obtain res st1 where f: "fetch_receive t k ?st0 = (res, st1)" by (cases "fetch_receive t k ?st0")
  then have "res = Inr v" using fetch_receive_fst[of t k ?st0] assms(2) by simp
  with f assms(1) show ?thesis by (simp add: dispatch_def resolve_all_def)
qed

subsection \<open>The cache keys of a model\<close>





subsection \<open>The first resource under a cache key\<close>





subsection \<open>A batch without failure\<close>







section \<open>The include directive and the cache key\<close>

text \<open>
  Claim C1, as the code has it: the cache key is built from type and id alone
  (\<open>cacheKeyFn\<close>), so two load requests with the same type and id share one cache
  entry whatever their include directives are. The second request gets the very promise
  of the first and leaves the loader unchanged: it queues no key of its own, hence
  causes no fetch of its own.
\<close>

theorem include_shares_cache_entry:
  assumes "key_type k2 = key_type k1" and "key_id k2 = key_id k1"
  shows "load k2 (snd (load k1 st)) = (fst (load k1 st), snd (load k1 st))"
proof -
  have "cacheKeyFn k2 = cacheKeyFn k1" using assms by (rule cacheKeyFn_cong)
  then have "cacheMap (snd (load k1 st)) (cacheKeyFn k2) = Some (fst (load k1 st))"
    by (simp add: cacheMap_load)
  then show ?thesis by (rule load_hit)
qed

theorem include_shares_cache_entry_witness:
  "key_type (flow_k None) = key_type (flow_k (Some ''flow'')) \<and>
   key_id (flow_k None) = key_id (flow_k (Some ''flow'')) \<and>
   flow_k None \<noteq> flow_k (Some ''flow'') \<and>
   load (flow_k None) (snd (load (flow_k (Some ''flow'')) new_api)) =
     (fst (load (flow_k (Some ''flow'')) new_api), snd (load (flow_k (Some ''flow'')) new_api))"
  using include_shares_cache_entry [of "flow_k None" "flow_k (Some ''flow'')" new_api]
  by (simp add: flow_k_def)

text \<open>
  Against claim C1 as stated: \<open>getFlow(''42'', ''flow'')\<close> followed by
  \<open>getFlow(''42'')\<close> in one tick. The second call returns the promise created by
  the first, and the dispatch sends a single request, the one carrying the include
  directive of the first call.
\<close>

theorem include_distinct_entries_counterexample:
  "fst (load (flow_k None) (snd (load (flow_k (Some ''flow'')) new_api))) =
     fst (load (flow_k (Some ''flow'')) new_api) \<and>
   sent (dispatch offline in_order (snd (load (flow_k None) (snd (load (flow_k (Some ''flow'')) new_api))))) =
     [AxiosGet ''api/v3/flows/42'' (Some ''flow'')]"
  by (simp add: flow_k_def load_def new_api_def cacheKeyFn_def dispatch_def request_of_def
      fetch_receive_def axios_receive_def offline_def failedDispatch_def clear_def in_order_def)

section \<open>Type aliases\<close>

text \<open>
  Claim C2, as the code has it: the alias table is read in one direction only. A
  resource that arrives with type \<open>employee-screening-flows\<close> (in a response that
  passes the interceptor) is primed under \<open>flows\<close> as well, so a later load of the
  \<open>flows\<close> key with the same id finds an entry and leaves the loader unchanged: it
  queues no fetch.
\<close>

theorem alias_is_one_way:
  assumes "absorbable r" and "models_of r = Inr ms" and "m \<in> set ms"
    and "field m ''type'' = JStr ''employee-screening-flows''"
    and "key_type k = JStr ''flows''" and "key_id k = field m ''id''"
  shows "cacheMap (snd (response_interceptor r st)) (cacheKeyFn k) \<noteq> None \<and>
         snd (load k (snd (response_interceptor r st))) = snd (response_interceptor r st)"
proof -
  have "cacheKeyFn k \<in> set (model_keys m)"
    using assms(4,5,6)
    by (simp add: model_keys_def cacheKeyFn_def TYPE_ALIASES_get_def TYPE_ALIASES_def)
  with assms(1,2,3) have "cacheMap (snd (response_interceptor r st)) (cacheKeyFn k) \<noteq> None"
    by (rule interceptor_present)
  then show ?thesis by (simp add: load_present)
qed

theorem alias_is_one_way_witness:
  "absorbable screening_42 \<and>
   models_of screening_42 =
     Inr [JObj [(''type'', JStr ''employee-screening-flows''), (''id'', JStr ''42'')],
          JObj [(''type'', JStr ''employees''), (''id'', JStr ''7'')]] \<and>
   field (JObj [(''type'', JStr ''employee-screening-flows''), (''id'', JStr ''42'')]) ''type''
     = JStr ''employee-screening-flows'' \<and>
   key_type (flow_k None) = JStr ''flows'' \<and>
   key_id (flow_k None) = field (JObj [(''type'', JStr ''employee-screening-flows''), (''id'', JStr ''42'')]) ''id'' \<and>
   cacheMap (snd (response_interceptor screening_42 new_api)) (cacheKeyFn (flow_k None)) \<noteq> None \<and>
   snd (load (flow_k None) (snd (response_interceptor screening_42 new_api))) =
     snd (response_interceptor screening_42 new_api)"
proof -
  have a: "absorbable screening_42"
    by (simp add: absorbable_def models_of_def screening_42_def field_def)
  have b: "models_of screening_42 =
     Inr [JObj [(''type'', JStr ''employee-screening-flows''), (''id'', JStr ''42'')],
          JObj [(''type'', JStr ''employees''), (''id'', JStr ''7'')]]"
    by (simp add: models_of_def screening_42_def field_def)
  have c: "field (JObj [(''type'', JStr ''employee-screening-flows''), (''id'', JStr ''42'')]) ''type''
     = JStr ''employee-screening-flows''"
    by (simp add: field_def)
  have d: "key_type (flow_k None) = JStr ''flows''" by (simp add: flow_k_def)
  have e: "key_id (flow_k None) = field (JObj [(''type'', JStr ''employee-screening-flows''), (''id'', JStr ''42'')]) ''id''"
    by (simp add: flow_k_def field_def)
  from alias_is_one_way [OF a b _ c d e, of new_api] a b c d e show ?thesis by simp
qed

text \<open>
  Against claim C2 as stated: after the interceptor has absorbed flow 42 under its own
  type \<open>flows\<close>, the cache has no entry for \<open>employee-screening-flows\<close> 42, and
  a load of that key is sent to the server.
\<close>

theorem alias_symmetric_counterexample:
  "fst (response_interceptor flows_42 new_api) = Inr flows_42 \<and>
   cacheMap (snd (response_interceptor flows_42 new_api)) ''flows_42''
     = Some (Resolved (JObj [(''type'', JStr ''flows''), (''id'', JStr ''42'')])) \<and>
   cacheMap (snd (response_interceptor flows_42 new_api)) ''employee-screening-flows_42'' = None \<and>
   sent (dispatch offline in_order
     (snd (load \<lparr>key_type = JStr ''employee-screening-flows'', key_id = JStr ''42'', key_include = None\<rparr>
       (snd (response_interceptor flows_42 new_api))))) =
     [AxiosGet ''api/v3/employee-screening-flows/42'' None]"
  by (simp add: run_defs flows_42_def offline_def)

section \<open>Deduplication of concurrent loads\<close>

text \<open>
  Claim C3. Start from a loader whose batch is empty (all earlier batches are
  dispatched), issue the loads \<open>ks\<close> and dispatch. The requests sent are exactly
  one per queued key; the queued keys are pairwise different and are among \<open>ks\<close>,
  so there is at most one fetch per key and at most as many fetches as distinct keys.
  For \<open>N > 0\<close> loads of one key \<open>k\<close> that has no cache entry, all \<open>N\<close>
  callers get the same promise, exactly one request for \<open>k\<close> is sent, and when
  the fetch succeeds with value \<open>v\<close> that promise is fulfilled with \<open>v\<close>.
\<close>

theorem one_fetch_per_key:
  assumes "batch st = []"
  shows "sent (dispatch t arrival (snd (loads ks st))) =
           sent st @ map request_of (map fst (batch (snd (loads ks st)))) \<and>
         distinct (map fst (batch (snd (loads ks st)))) \<and>
         set (map fst (batch (snd (loads ks st)))) \<subseteq> set ks \<and>
         length (batch (snd (loads ks st))) \<le> card (set ks) \<and>
         (cacheMap st (cacheKeyFn k) = None \<and> 0 < N \<longrightarrow>
            fst (loads (replicate N k) st) = replicate N (Deferred (fresh st)) \<and>
            sent (dispatch t arrival (snd (loads (replicate N k) st))) = sent st @ [request_of k] \<and>
            (fetched t k = Inr v \<longrightarrow>
               settled (dispatch t arrival (snd (loads (replicate N k) st))) (Deferred (fresh st)) = Fulfilled v))"
proof -
  have "queued_ok st" using assms by (simp add: queued_ok_def)
  from loads_queued[OF this, of ks] assms have
    q: "queued_ok (snd (loads ks st))" and sub: "fst ` set (batch (snd (loads ks st))) \<subseteq> set ks"
    by auto
  have d: "distinct (map fst (batch (snd (loads ks st))))" using q by (rule queued_distinct_keys)
  have 1: "sent (dispatch t arrival (snd (loads ks st))) =
      sent st @ map request_of (map fst (batch (snd (loads ks st))))"
    by (simp add: dispatch_fields sent_loads case_prod_unfold comp_def)
  have "length (batch (snd (loads ks st))) = card (set (map fst (batch (snd (loads ks st)))))"
    using distinct_card[OF d] by simp
  also have "\<dots> \<le> card (set ks)" using sub by (simp add: card_mono)
  finally have 2: "length (batch (snd (loads ks st))) \<le> card (set ks)" .
  have 3: "fst (loads (replicate N k) st) = replicate N (Deferred (fresh st)) \<and>
      sent (dispatch t arrival (snd (loads (replicate N k) st))) = sent st @ [request_of k] \<and>
      (fetched t k = Inr v \<longrightarrow>
         settled (dispatch t arrival (snd (loads (replicate N k) st))) (Deferred (fresh st)) = Fulfilled v)"
    if miss: "cacheMap st (cacheKeyFn k) = None" and pos: "0 < N"
  proof -
    from pos obtain M where N: "N = Suc M" by (cases N) auto
    have same: "loads (replicate N k) st = (replicate N (Deferred (fresh st)), snd (load k st))"
      unfolding N using miss by (rule loads_same_key)
    have b: "batch (snd (load k st)) = [(k, fresh st)]"
      using assms miss by (simp add: load_miss)
    have "sent (dispatch t arrival (snd (loads (replicate N k) st))) = sent st @ [request_of k]"
      by (simp add: same dispatch_fields b sent_load)
    moreover have "fetched t k = Inr v \<longrightarrow>
        settled (dispatch t arrival (snd (loads (replicate N k) st))) (Deferred (fresh st)) = Fulfilled v"
      using dispatch_one_success[OF b, of t v arrival] by (simp add: same)
    ultimately show ?thesis using same by simp
  qed
  from 1 d sub 2 3 show ?thesis by simp
qed

theorem one_fetch_per_key_witness:
  "batch new_api = [] \<and> cacheMap new_api (cacheKeyFn (flow_k None)) = None \<and> (0::nat) < 3 \<and>
   fetched serving (flow_k None) = Inr (JObj [(''type'', JStr ''flows''), (''id'', JStr ''42'')]) \<and>
   fst (loads (replicate 3 (flow_k None)) new_api) = [Deferred 0, Deferred 0, Deferred 0] \<and>
   sent (dispatch serving in_order (snd (loads (replicate 3 (flow_k None)) new_api))) =
     [AxiosGet ''api/v3/flows/42'' None] \<and>
   settled (dispatch serving in_order (snd (loads (replicate 3 (flow_k None)) new_api))) (Deferred 0) =
     Fulfilled (JObj [(''type'', JStr ''flows''), (''id'', JStr ''42'')]) \<and>
   length (batch (snd (loads [flow_k None, flow_k (Some ''flow''), employee_k] new_api))) \<le>
     card (set [flow_k None, flow_k (Some ''flow''), employee_k])"
proof -
  have a: "batch new_api = []" by (simp add: new_api_def)
  have b: "cacheMap new_api (cacheKeyFn (flow_k None)) = None" by (simp add: new_api_def)
  have c: "fetched serving (flow_k None) = Inr (JObj [(''type'', JStr ''flows''), (''id'', JStr ''42'')])"
    by (simp add: fetched_def serving_def flows_42_def absorbable_def models_of_def field_def)
  have d: "fresh new_api = 0" "sent new_api = []" by (simp_all add: new_api_def)
  have e: "replicate 3 (Deferred 0) = [Deferred 0, Deferred 0, Deferred 0]"
    by (simp add: numeral_3_eq_3)
  from one_fetch_per_key [OF a, where t = serving and arrival = in_order and
      ks = "[flow_k None, flow_k (Some ''flow''), employee_k]" and k = "flow_k None" and N = 3 and
      v = "JObj [(''type'', JStr ''flows''), (''id'', JStr ''42'')]"] a b c d e
  show ?thesis by (simp add: request_of_def flow_k_def)
qed

section \<open>Absorption of the resources of a response\<close>




section \<open>Priming\<close>

text \<open>
  Claim C5, as the code has it: \<open>prime\<close> never causes a fetch (it touches neither
  the batch nor the requests sent nor any deferred promise), and it inserts only where
  the cache has no entry for the key: an entry that exists, a pending fetch included, is
  kept. So \<open>prime(k, v)\<close> followed by \<open>load(k)\<close> resolves to \<open>v\<close> when
  \<open>k\<close> had no entry, and to the entry that was there otherwise; in both cases the
  load queues nothing.
\<close>

theorem prime_keeps_existing_entry:
  "batch (prime k v st) = batch st \<and> sent (prime k v st) = sent st \<and>
   deferred (prime k v st) = deferred st \<and>
   load k (prime k v st) =
     (case cacheMap st (cacheKeyFn k) of None \<Rightarrow> Resolved v | Some p \<Rightarrow> p, prime k v st)"
  by (simp add: load_def cacheMap_prime split: option.splits)

text \<open>
  Against claim C5 as stated: a second \<open>prime\<close> of the same key does not
  overwrite the first value; and a \<open>prime\<close> issued while the fetch of the key is
  pending loses against it: the caller keeps the pending promise, which here is
  rejected by the failing fetch.
\<close>

theorem prime_overwrites_counterexample:
  "fst (load (flow_k None) (prime (flow_k None) (JStr ''new'') (prime (flow_k None) (JStr ''old'') new_api)))
     = Resolved (JStr ''old'') \<and>
   fst (load (flow_k None) (prime (flow_k None) (JStr ''new'') (snd (load (flow_k None) new_api))))
     = Deferred 0 \<and>
   settled (dispatch offline in_order (prime (flow_k None) (JStr ''new'') (snd (load (flow_k None) new_api))))
     (Deferred 0) = Rejected (AxiosError ''ECONNREFUSED'')"
  by (simp add: run_defs flow_k_def offline_def)

section \<open>A failed fetch\<close>




section \<open>Responses without the JSON-API shape\<close>

text \<open>
  Claim C7 at concrete responses. The interceptor throws a \<open>TypeError\<close> on the
  answer of the storage service to a \<open>get\<close> of an absent key (a result list holding
  \<open>null\<close>), on an answer without body, and on an empty body; through
  \<open>storagePipeline\<close> the throw rejects \<open>execute\<close>, so the caller does not
  receive the response. An answer that holds a storage item does not make it throw, but
  is not left alone either: the item is primed into the loader's cache under the key
  \<open>undefined_undefined\<close>.
\<close>

theorem interceptor_throws_on_storage_miss:
  "fst (response_interceptor \<lparr>status = 200, data = JObj [(''data'', JArr [JNull])]\<rparr> new_api) = Inl TypeError \<and>
   fst (response_interceptor \<lparr>status = 204, data = JUndefined\<rparr> new_api) = Inl TypeError \<and>
   fst (response_interceptor \<lparr>status = 204, data = JStr []\<rparr> new_api) = Inl TypeError \<and>
   fst (execute storage_miss (get ''b'' (new_pipeline None)) new_api) = Inl TypeError \<and>
   cacheMap (snd (execute storage_echo (get ''b'' (new_pipeline None)) new_api)) ''undefined_undefined'' =
     Some (Resolved (JObj [(''key'', JStr ''b''), (''value'', JNum ''1'')]))"
  by (simp add: run_defs get_def storage_miss_def storage_echo_def)

section \<open>Building and executing a pipeline\<close>

text \<open>
  Claim C8, as the code has it. Every builder call appends exactly the one command it
  stands for and keeps the installation id; a pipeline built by the calls \<open>calls\<close>
  holds their commands in call order. Whatever the transport answers, \<open>execute\<close>
  hands exactly one request to it: the whole command list in that order, with the
  installation id when it is a non-empty string (\<open>if (installId)\<close> drops an empty
  one). When the transport answers with a response that passes the interceptor,
  \<open>execute\<close> returns the \<open>data\<close> member of the body as it is; the code does not
  compare it with the command list.
\<close>

theorem pipeline_sends_commands_in_order:
  "commands (apply_call c p) = commands p @ [command_of c] \<and>
   installId (apply_call c p) = installId p \<and>
   map action (map command_of [CallGet x, CallSet x v, CallSetUnique x opts,
       CallSetUniqueNum x opts', CallUnset x]) =
     [''get'', ''set'', ''set_unique'', ''set_unique_num'', ''unset''] \<and>
   commands (build calls (new_pipeline i)) = map command_of calls \<and>
   installId (build calls (new_pipeline i)) = i \<and>
   sent (snd (execute t (build calls (new_pipeline i)) st)) =
     sent st @ [AxiosPost storage_url (map command_of calls) (if i = Some [] then None else i)] \<and>
   (t (storage_request (map command_of calls) i) = Inr r \<and> absorbable r \<longrightarrow>
      fst (execute t (build calls (new_pipeline i)) st) = Inr (field (data r) ''data''))"
proof -
  have b: "commands (build calls (new_pipeline i)) = map command_of calls"
          "installId (build calls (new_pipeline i)) = i"
    by (simp_all add: build_commands new_pipeline_def)
  have s: "storage_request (map command_of calls) i =
      AxiosPost storage_url (map command_of calls) (if i = Some [] then None else i)"
    by (cases i) (simp_all add: storage_request_def)
  have "sent (snd (execute t (build calls (new_pipeline i)) st)) =
      sent st @ [storage_request (map command_of calls) i]"
    by (simp add: execute_def b sent_storagePipeline)
  moreover have "t (storage_request (map command_of calls) i) = Inr r \<and> absorbable r \<longrightarrow>
      fst (execute t (build calls (new_pipeline i)) st) = Inr (field (data r) ''data'')"
    by (simp add: execute_def b storagePipeline_fst)
  ultimately show ?thesis using b s by (simp add: apply_call_commands)
qed

theorem pipeline_sends_commands_in_order_witness:
  "storage_echo (storage_request (map command_of [CallSet ''a'' (JNum ''1''), CallGet ''b'', CallUnset ''c'']) (Some ''inst''))
     = Inr \<lparr>status = 200, data = JObj [(''data'',
         JArr [JObj [(''key'', JStr ''a''), (''value'', JNum ''1'')],
               JObj [(''key'', JStr ''b''), (''value'', JNum ''1'')],
               JObj [(''key'', JStr ''c''), (''value'', JNum ''1'')]])]\<rparr> \<and>
   commands (build [CallSet ''a'' (JNum ''1''), CallGet ''b'', CallUnset ''c''] (new_pipeline (Some ''inst'')))
     = [Set ''a'' (JNum ''1''), Get ''b'', Unset ''c''] \<and>
   sent (snd (execute storage_echo (build [CallSet ''a'' (JNum ''1''), CallGet ''b'', CallUnset ''c''] (new_pipeline (Some ''inst''))) new_api))
     = [AxiosPost storage_url [Set ''a'' (JNum ''1''), Get ''b'', Unset ''c''] (Some ''inst'')] \<and>
   fst (execute storage_echo (build [CallSet ''a'' (JNum ''1''), CallGet ''b'', CallUnset ''c''] (new_pipeline (Some ''inst''))) new_api)
     = Inr (JArr [JObj [(''key'', JStr ''a''), (''value'', JNum ''1'')],
               JObj [(''key'', JStr ''b''), (''value'', JNum ''1'')],
               JObj [(''key'', JStr ''c''), (''value'', JNum ''1'')]])"
proof -
  let ?r = "\<lparr>status = 200, data = JObj [(''data'',
         JArr [JObj [(''key'', JStr ''a''), (''value'', JNum ''1'')],
               JObj [(''key'', JStr ''b''), (''value'', JNum ''1'')],
               JObj [(''key'', JStr ''c''), (''value'', JNum ''1'')]])]\<rparr>"
  have a: "storage_echo (storage_request (map command_of [CallSet ''a'' (JNum ''1''), CallGet ''b'', CallUnset ''c'']) (Some ''inst'')) = Inr ?r"
    by (simp add: storage_echo_def storage_request_def)
  have b: "absorbable ?r"
    by (simp add: absorbable_def models_of_def field_def)
  from pipeline_sends_commands_in_order [where t = storage_echo and
      calls = "[CallSet ''a'' (JNum ''1''), CallGet ''b'', CallUnset ''c'']" and
      i = "Some ''inst''" and st = new_api and r = "?r"] a b show ?thesis
    by (simp add: new_api_def field_def)
qed

text \<open>
  Against claim C8 as stated: a pipeline bound to the empty installation id sends a
  request without installation id.
\<close>

theorem install_id_always_sent_counterexample:
  "installId (get ''k'' (new_pipeline (Some []))) = Some [] \<and>
   sent (snd (execute offline (get ''k'' (new_pipeline (Some []))) new_api)) =
     [AxiosPost storage_url [Get ''k''] None]"
  by (simp add: run_defs get_def offline_def)

section \<open>A failed storage request\<close>

text \<open>
  Claim C9: when the transport fails the storage request with error \<open>e\<close>,
  \<open>execute\<close> (and \<open>executeSingle\<close>) is rejected with \<open>e\<close> itself. The
  outcome is the error alone: no result list, partial or not, comes with it, and the
  cache is untouched.
\<close>

theorem execute_rejects_whole:
  assumes "t (storage_request (commands p) (installId p)) = Inl e"
  shows "fst (execute t p st) = Inl e \<and> fst (executeSingle t p st) = Inl e \<and>
         cacheMap (snd (execute t p st)) = cacheMap st"
  using assms by (simp add: execute_def executeSingle_def storagePipeline_def axios_def axios_receive_def)

theorem execute_rejects_whole_witness:
  "failing (storage_request (commands (get ''b'' (set_value ''a'' (JNum ''1'') (new_pipeline None)))) 
       (installId (get ''b'' (set_value ''a'' (JNum ''1'') (new_pipeline None))))) = Inl (AxiosError storage_url) \<and>
   fst (execute failing (get ''b'' (set_value ''a'' (JNum ''1'') (new_pipeline None))) new_api) = Inl (AxiosError storage_url)"
  using execute_rejects_whole [of failing "get ''b'' (set_value ''a'' (JNum ''1'') (new_pipeline None))" "AxiosError storage_url" new_api]
  by (simp add: failing_def storage_request_def)

section \<open>executeSingle on an empty result list\<close>

text \<open>
  Claim C10: when the transport answers the storage request with an empty result list
  (and no \<open>included\<close> member), \<open>executeSingle\<close> resolves to
  \<open>undefined\<close>, which is neither a storage item nor \<open>null\<close>.
\<close>

theorem executeSingle_empty_is_undefined:
  assumes "t (storage_request (commands p) (installId p)) = Inr r"
    and "field (data r) ''data'' = JArr []"
    and "\<not> truthy (field (data r) ''included'')"
  shows "fst (executeSingle t p st) = Inr JUndefined"
proof -
  have "absorbable r" using assms(2,3) by (rule absorbable_empty)
  with assms(1,2) have "fst (execute t p st) = Inr (JArr [])"
    by (simp add: execute_def storagePipeline_fst)
  then show ?thesis
    by (cases "execute t p st") (simp add: executeSingle_def first_of_def)
qed

theorem executeSingle_empty_is_undefined_witness:
  "storage_empty (storage_request (commands (new_pipeline None)) (installId (new_pipeline None))) =
     Inr \<lparr>status = 200, data = JObj [(''data'', JArr [])]\<rparr> \<and>
   field (JObj [(''data'', JArr [])]) ''data'' = JArr [] \<and>
   \<not> truthy (field (JObj [(''data'', JArr [])]) ''included'') \<and>
   fst (executeSingle storage_empty (new_pipeline None) new_api) = Inr JUndefined \<and>
   JUndefined \<noteq> JNull"
  using executeSingle_empty_is_undefined [of storage_empty "new_pipeline None"
      "\<lparr>status = 200, data = JObj [(''data'', JArr [])]\<rparr>" new_api]
  by (simp add: storage_empty_def field_def)

end
